theory Spec2Isabelle
  imports Complex_Main
begin

section \<open>Numbers\<close>

text \<open>
  The program computes on Python floats. They are modelled as exact rationals
  (\<^typ>\<open>rat\<close>): every arithmetic operation is the exact one, and the only rounding
  is the explicit \<^verbatim>\<open>round(x, 2)\<close> of the source. Python integers are \<^typ>\<open>int\<close>.
\<close>

datatype py_error = IndexError | ZeroDivisionError

text \<open>
  \<^verbatim>\<open>round(x, 2)\<close>: the nearest multiple of one cent, a tie going to the even
  neighbour, as Python rounds an exactly representable tie.
\<close>

definition round_half_even :: "rat \<Rightarrow> int" where
  "round_half_even y =
     (let f = \<lfloor>y\<rfloor>; d = y - of_int f
      in if d < 1 / 2 then f
         else if 1 / 2 < d then f + 1
         else if even f then f else f + 1)"

definition py_round2 :: "rat \<Rightarrow> rat" where
  "py_round2 x = of_int (round_half_even (x * 100)) / 100"

text \<open>\<^verbatim>\<open>a / b\<close> on floats raises ZeroDivisionError when \<^verbatim>\<open>b\<close> is zero.\<close>

definition py_div :: "rat \<Rightarrow> rat \<Rightarrow> py_error + rat" where
  "py_div a b = (if b = 0 then Inl ZeroDivisionError else Inr (a / b))"

section \<open>Price-level construction\<close>

text \<open>
  \<^verbatim>\<open>
  next_price = current_price - interval_value          if interval_type == "$"
  next_price = current_price * (1 - interval_value)    otherwise
  \<close>
\<close>

definition next_price :: "string \<Rightarrow> rat \<Rightarrow> rat \<Rightarrow> rat" where
  "next_price interval_type interval_value current_price =
     (if interval_type = ''$'' then current_price - interval_value
      else current_price * (1 - interval_value))"

text \<open>
  The \<^verbatim>\<open>while True\<close> loop of \<^verbatim>\<open>build_price_levels\<close>, with its state
  (\<^verbatim>\<open>current_price\<close>, \<^verbatim>\<open>prices\<close>). It leaves by \<^verbatim>\<open>break\<close> only, so a run
  that never reaches the floor is the value \<open>None\<close>.
\<close>

partial_function (option)
  ladder_loop :: "string \<Rightarrow> rat \<Rightarrow> rat \<Rightarrow> rat \<Rightarrow> rat list \<Rightarrow> rat list option"
where
  "ladder_loop interval_type interval_value end_price current_price prices =
     (if next_price interval_type interval_value current_price \<le> end_price then Some prices
      else ladder_loop interval_type interval_value end_price
             (next_price interval_type interval_value current_price)
             (prices @ [next_price interval_type interval_value current_price]))"

declare ladder_loop.simps [code]

text \<open>
  \<^verbatim>\<open>build_price_levels\<close> returns the ladder; the calls of \<^verbatim>\<open>st.warning\<close> are the
  first component of the result, in the order they are made.
\<close>

definition build_price_levels ::
  "rat \<Rightarrow> rat \<Rightarrow> string \<Rightarrow> rat \<Rightarrow> (string list \<times> rat list) option" where
  "build_price_levels start_price end_price interval_type interval_value =
     (if start_price \<le> end_price then
        Some ([''Starting price must be ABOVE the Lowest Expected Price.''],
              [py_round2 start_price])
      else if interval_value \<le> 0 then
        Some ([''Interval value must be positive.''],
              [py_round2 start_price, py_round2 end_price])
      else
        (case ladder_loop interval_type interval_value end_price start_price [start_price] of
           None \<Rightarrow> None
         | Some prices \<Rightarrow> Some ([], map py_round2 (prices @ [end_price]))))"

section \<open>Allocation search\<close>

text \<open>
  The body of the inner loop \<^verbatim>\<open>for i in range(1, len(prices))\<close>, on the state
  (\<^verbatim>\<open>Q\<close>, \<^verbatim>\<open>S_price\<close>, \<^verbatim>\<open>S_shares\<close>). The division is the fallible
  \<^const>\<open>py_div\<close>, reached only when \<^verbatim>\<open>denom != 0\<close>.
\<close>

definition level_step ::
  "rat list \<Rightarrow> rat \<Rightarrow> int list \<times> rat \<times> int \<Rightarrow> nat \<Rightarrow> py_error + (int list \<times> rat \<times> int)" where
  "level_step prices avg_cost_margin st i =
     (case st of (Q, S_price, S_shares) \<Rightarrow>
        (let p_i = prices ! i;
             lhs = S_price - (1 + avg_cost_margin) * p_i * of_int S_shares;
             denom = avg_cost_margin * p_i
         in (case (if denom \<noteq> 0 then py_div lhs denom else Inr 0) of
               Inl e \<Rightarrow> Inl e
             | Inr m \<Rightarrow>
                 (let min_needed = (if m < 0 then 0 else m);
                      buy_i = \<lceil>min_needed\<rceil>
                  in Inr (Q[i := buy_i], S_price + p_i * of_int buy_i, S_shares + buy_i)))))"

fun levels_loop ::
  "rat list \<Rightarrow> rat \<Rightarrow> int list \<times> rat \<times> int \<Rightarrow> nat list \<Rightarrow> py_error + (int list \<times> rat \<times> int)" where
  "levels_loop prices avg_cost_margin st [] = Inr st"
| "levels_loop prices avg_cost_margin st (i # is) =
     (case level_step prices avg_cost_margin st i of
        Inl e \<Rightarrow> Inl e
      | Inr st' \<Rightarrow> levels_loop prices avg_cost_margin st' is)"

text \<open>\<^verbatim>\<open>sum(p*q for p,q in zip(prices, Q))\<close>\<close>

definition total_cost_of :: "rat list \<Rightarrow> int list \<Rightarrow> rat" where
  "total_cost_of prices Q = sum_list (map (\<lambda>(p, q). p * of_int q) (zip prices Q))"

text \<open>
  The schedule and its total cost for one candidate \<^verbatim>\<open>Q0\<close>: the body of the outer
  loop down to \<^verbatim>\<open>total_cost\<close>. On an empty ladder \<^verbatim>\<open>Q[0] = Q0\<close> raises IndexError.
\<close>

definition schedule_for :: "rat list \<Rightarrow> rat \<Rightarrow> int \<Rightarrow> py_error + (int list \<times> rat)" where
  "schedule_for prices avg_cost_margin Q0 =
     (if prices = [] then Inl IndexError
      else
        (case levels_loop prices avg_cost_margin
                ((replicate (length prices) 0)[0 := Q0], prices ! 0 * of_int Q0, Q0)
                [1 ..< length prices] of
           Inl e \<Rightarrow> Inl e
         | Inr (Q, S_price, S_shares) \<Rightarrow> Inr (Q, total_cost_of prices Q)))"

text \<open>
  One round of the outer loop on the state (\<^verbatim>\<open>best_Q0\<close>, \<^verbatim>\<open>best_solution\<close>);
  \<^verbatim>\<open>None\<close> is \<open>None\<close>.
\<close>

definition search_step ::
  "rat list \<Rightarrow> rat \<Rightarrow> rat \<Rightarrow> int \<times> (int list \<times> rat) option \<Rightarrow> int
     \<Rightarrow> py_error + (int \<times> (int list \<times> rat) option)" where
  "search_step prices budget avg_cost_margin st Q0 =
     (case st of (best_Q0, best_solution) \<Rightarrow>
        (case schedule_for prices avg_cost_margin Q0 of
           Inl e \<Rightarrow> Inl e
         | Inr (Q, total_cost) \<Rightarrow>
             Inr (if total_cost \<le> budget then
                    (if Q0 > best_Q0 then (Q0, Some (Q, total_cost))
                     else (best_Q0, best_solution))
                  else (best_Q0, best_solution))))"

fun search_loop ::
  "rat list \<Rightarrow> rat \<Rightarrow> rat \<Rightarrow> int \<times> (int list \<times> rat) option \<Rightarrow> int list
     \<Rightarrow> py_error + (int \<times> (int list \<times> rat) option)" where
  "search_loop prices budget avg_cost_margin st [] = Inr st"
| "search_loop prices budget avg_cost_margin st (Q0 # Q0s) =
     (case search_step prices budget avg_cost_margin st Q0 of
        Inl e \<Rightarrow> Inl e
      | Inr st' \<Rightarrow> search_loop prices budget avg_cost_margin st' Q0s)"

text \<open>
  The whole scan \<^verbatim>\<open>for Q0 in range(max_Q0_search + 1)\<close> from
  \<^verbatim>\<open>best_Q0 = 0\<close>, \<^verbatim>\<open>best_solution = None\<close>; the range is empty when
  \<^verbatim>\<open>max_Q0_search\<close> is negative.
\<close>

definition search_state ::
  "rat list \<Rightarrow> rat \<Rightarrow> rat \<Rightarrow> int \<Rightarrow> py_error + (int \<times> (int list \<times> rat) option)" where
  "search_state prices budget avg_cost_margin max_Q0_search =
     search_loop prices budget avg_cost_margin (0, None) [0 .. max_Q0_search]"

definition find_optimal_allocation ::
  "rat list \<Rightarrow> rat \<Rightarrow> rat \<Rightarrow> int \<Rightarrow> py_error + (int list \<times> rat) option" where
  "find_optimal_allocation prices budget avg_cost_margin max_Q0_search =
     (case search_state prices budget avg_cost_margin max_Q0_search of
        Inl e \<Rightarrow> Inl e
      | Inr (best_Q0, best_solution) \<Rightarrow> Inr best_solution)"

section \<open>Display rows\<close>

record display_row =
  Price :: rat
  Shares_Purchased :: int
  Average_Purchase_Price :: rat
  Pct_Diff :: rat
  Cost_of_Purchase :: rat
  Cumulative_Investment :: rat
  Cumulative_Shares :: int




section \<open>Predicates on ladders\<close>

fun strictly_decreasing :: "rat list \<Rightarrow> bool" where
  "strictly_decreasing [] = True"
| "strictly_decreasing [x] = True"
| "strictly_decreasing (x # y # ys) = (y < x \<and> strictly_decreasing (y # ys))"

fun non_increasing :: "rat list \<Rightarrow> bool" where
  "non_increasing [] = True"
| "non_increasing [x] = True"
| "non_increasing (x # y # ys) = (y \<le> x \<and> non_increasing (y # ys))"

section \<open>The schedule in closed form\<close>

text \<open>
  The number of shares one pass of the inner loop buys at price \<open>p\<close>, from the
  running totals \<open>S_price\<close> and \<open>S_shares\<close>: \<^verbatim>\<open>math.ceil\<close> of the clamped
  \<^verbatim>\<open>min_needed\<close>, where the quotient is taken only when \<^verbatim>\<open>denom != 0\<close>.
\<close>

definition buy_qty :: "rat \<Rightarrow> rat \<Rightarrow> rat \<Rightarrow> int \<Rightarrow> int" where
  "buy_qty avg_cost_margin p S_price S_shares =
     (let lhs = S_price - (1 + avg_cost_margin) * p * of_int S_shares;
          denom = avg_cost_margin * p;
          m = (if denom \<noteq> 0 then lhs / denom else 0)
      in \<lceil>if m < 0 then 0 else m\<rceil>)"

text \<open>
  The purchases at the levels after the first, as a list over the remaining prices;
  \<open>levels_loop_upt\<close> below shows that \<^const>\<open>levels_loop\<close> writes exactly these
  into \<^verbatim>\<open>Q\<close>.
\<close>

fun top_ups :: "rat \<Rightarrow> rat list \<Rightarrow> rat \<Rightarrow> int \<Rightarrow> int list" where
  "top_ups avg_cost_margin [] S_price S_shares = []"
| "top_ups avg_cost_margin (p # ps) S_price S_shares =
     (let b = buy_qty avg_cost_margin p S_price S_shares
      in b # top_ups avg_cost_margin ps (S_price + p * of_int b) (S_shares + b))"



text \<open>
  A candidate \<^verbatim>\<open>Q0\<close> is feasible when its schedule passes the test
  \<^verbatim>\<open>total_cost <= budget\<close> of the outer loop.
\<close>

definition feasible :: "rat list \<Rightarrow> rat \<Rightarrow> rat \<Rightarrow> int \<Rightarrow> bool" where
  "feasible prices budget avg_cost_margin Q0 =
     (case schedule_for prices avg_cost_margin Q0 of
        Inl e \<Rightarrow> False
      | Inr (Q, total_cost) \<Rightarrow> total_cost \<le> budget)"

section \<open>The display rows in closed form\<close>





section \<open>Rounding is monotone\<close>

lemma round_half_even_bounds:
  "\<lfloor>y\<rfloor> \<le> round_half_even y \<and> round_half_even y \<le> \<lfloor>y\<rfloor> + 1"
  by (simp add: round_half_even_def Let_def)

lemma round_half_even_mono:
  assumes "x \<le> y"
  shows "round_half_even x \<le> round_half_even y"
proof (cases "\<lfloor>x\<rfloor> = \<lfloor>y\<rfloor>")
  case True
  then have "x - of_int \<lfloor>x\<rfloor> \<le> y - of_int \<lfloor>y\<rfloor>"
    using assms by simp
  then show ?thesis
    using True by (auto simp: round_half_even_def Let_def)
next
  case False
  then have "\<lfloor>x\<rfloor> + 1 \<le> \<lfloor>y\<rfloor>"
    using floor_mono [OF assms] by linarith
  then show ?thesis
    using round_half_even_bounds [of x] round_half_even_bounds [of y] by linarith
qed

lemma py_round2_mono: "x \<le> y \<Longrightarrow> py_round2 x \<le> py_round2 y"
  using round_half_even_mono [of "x * 100" "y * 100"]
  by (simp add: py_round2_def divide_le_cancel)

lemma strictly_decreasing_snoc:
  "strictly_decreasing (xs @ [x]) = (strictly_decreasing xs \<and> (xs \<noteq> [] \<longrightarrow> x < last xs))"
  by (induction xs rule: strictly_decreasing.induct) auto

lemma non_increasing_map_round:
  "strictly_decreasing xs \<Longrightarrow> non_increasing (map py_round2 xs)"
  by (induction xs rule: strictly_decreasing.induct) (auto intro: py_round2_mono less_imp_le)

section \<open>The ladder loop\<close>

lemma ladder_loop_inv:
  "ladder_loop ity v e cur acc = Some ps \<Longrightarrow>
   (\<forall>c. e < c \<longrightarrow> next_price ity v c < c) \<Longrightarrow>
   acc \<noteq> [] \<Longrightarrow> last acc = cur \<Longrightarrow> strictly_decreasing acc \<Longrightarrow> (\<forall>x\<in>set acc. e < x) \<Longrightarrow>
   ps \<noteq> [] \<and> hd ps = hd acc \<and> strictly_decreasing ps \<and> (\<forall>x\<in>set ps. e < x)"
proof (induction ity v e cur acc ps rule: ladder_loop.raw_induct [rotated, consumes 1])
  case (1 loop ity v e cur acc ps)
  let ?n = "next_price ity v cur"
  show ?case
  proof (cases "?n \<le> e")
    case True
    with 1 show ?thesis by simp
  next
    case False
    have ecur: "e < cur" using 1 by (metis last_in_set)
    then have lt: "?n < cur" using 1 by simp
    have eq: "loop ity v e ?n (acc @ [?n]) = Some ps"
      using 1 False by simp
    have "ps \<noteq> [] \<and> hd ps = hd (acc @ [?n]) \<and> strictly_decreasing ps \<and> (\<forall>x\<in>set ps. e < x)"
    proof (rule "1.IH" [OF eq])
      show "\<forall>c. e < c \<longrightarrow> next_price ity v c < c" using 1 by simp
      show "acc @ [?n] \<noteq> []" by simp
      show "last (acc @ [?n]) = ?n" by simp
      show "strictly_decreasing (acc @ [?n])"
        using 1 lt by (simp add: strictly_decreasing_snoc)
      show "\<forall>x\<in>set (acc @ [?n]). e < x" using 1 False by auto
    qed
    then show ?thesis using 1 by simp
  qed
qed






lemma next_price_decreases:
  assumes "0 < v" "0 \<le> e \<or> ity = ''$''" "e < c"
  shows "next_price ity v c < c"
proof (cases "ity = ''$''")
  case True
  then show ?thesis using assms by (simp add: next_price_def)
next
  case False
  then have "0 < c" using assms by simp
  then have "0 < c * v" using assms by simp
  then show ?thesis using False by (simp add: next_price_def algebra_simps)
qed

section \<open>The inner loop of the search\<close>

lemma level_step_eq:
  "level_step prices m (Q, S, N) i =
     Inr (Q[i := buy_qty m (prices ! i) S N],
          S + prices ! i * of_int (buy_qty m (prices ! i) S N),
          N + buy_qty m (prices ! i) S N)"
  by (simp add: level_step_def py_div_def buy_qty_def Let_def)

lemma levels_loop_upt:
  "k \<le> length prices \<Longrightarrow> length Q = length prices \<Longrightarrow>
   \<exists>S' N'. levels_loop prices m (Q, S, N) [k ..< length prices] =
            Inr (take k Q @ top_ups m (drop k prices) S N, S', N')"
proof (induction "length prices - k" arbitrary: k Q S N)
  case 0
  then show ?case by simp
next
  case (Suc d)
  then have k: "k < length prices" by simp
  let ?b = "buy_qty m (prices ! k) S N"
  have "Suc k \<le> length prices" "length (Q[k := ?b]) = length prices" "d = length prices - Suc k"
    using Suc k by simp_all
  from Suc.hyps(1) [OF this(3) this(1) this(2)] obtain S' N' where
    "levels_loop prices m (Q[k := ?b], S + prices ! k * of_int ?b, N + ?b) [Suc k ..< length prices] =
       Inr (take (Suc k) (Q[k := ?b]) @
            top_ups m (drop (Suc k) prices) (S + prices ! k * of_int ?b) (N + ?b), S', N')"
    by blast
  moreover have "take (Suc k) (Q[k := ?b]) = take k Q @ [?b]"
    using k Suc.prems by (simp add: take_Suc_conv_app_nth)
  moreover have "drop k prices = prices ! k # drop (Suc k) prices"
    using k by (simp add: Cons_nth_drop_Suc)
  ultimately show ?case
    using k by (simp add: upt_conv_Cons level_step_eq Let_def)
qed



lemma schedule_for_eq:
  assumes "prices \<noteq> []"
  shows "schedule_for prices m Q0 =
           Inr (Q0 # top_ups m (tl prices) (hd prices * of_int Q0) Q0,
                total_cost_of prices (Q0 # top_ups m (tl prices) (hd prices * of_int Q0) Q0))"
proof -
  obtain p ps where p: "prices = p # ps" using assms by (cases prices) auto
  have "1 \<le> length prices" "length ((replicate (length prices) 0)[0 := Q0]) = length prices"
    using assms by (simp_all add: Suc_le_eq)
  from levels_loop_upt [OF this, of m "prices ! 0 * of_int Q0" Q0]
  show ?thesis
    by (auto simp: schedule_for_def p)
qed

lemma schedule_for_error:
  "schedule_for prices m Q0 = Inl e \<Longrightarrow> prices = [] \<and> e = IndexError"
  using schedule_for_eq [of prices m Q0] by (cases "prices = []") (auto simp: schedule_for_def)

lemma length_top_ups: "length (top_ups m ps S N) = length ps"
  by (induction ps arbitrary: S N) (simp_all add: Let_def)

lemma buy_qty_nonneg: "0 \<le> buy_qty m p S N"
  by (simp add: buy_qty_def Let_def ceiling_le_iff le_ceiling_iff)

lemma top_ups_nonneg: "b \<in> set (top_ups m ps S N) \<Longrightarrow> 0 \<le> b"
  by (induction ps arbitrary: S N) (auto simp: Let_def buy_qty_nonneg)


lemma top_ups_zero_margin: "top_ups 0 ps S N = replicate (length ps) 0"
  by (induction ps arbitrary: S N) (simp_all add: Let_def buy_qty_def)



section \<open>The scan over the candidates\<close>

lemma search_step_eq:
  assumes "schedule_for prices m x = Inr (Q, c)"
  shows "search_step prices b m (q, s) x =
           Inr (if feasible prices b m x \<and> q < x then (x, Some (Q, c)) else (q, s))"
  using assms by (simp add: search_step_def feasible_def)

lemma search_step_error:
  "schedule_for prices m x = Inl e \<Longrightarrow> search_step prices b m (q, s) x = Inl e"
  by (simp add: search_step_def)

lemma search_loop_char:
  "search_loop prices b m (q, s) xs = Inr (q', s') \<Longrightarrow>
   q \<le> q' \<and> (\<forall>x\<in>set xs. feasible prices b m x \<longrightarrow> x \<le> q') \<and>
   ((q' = q \<and> s' = s) \<or>
    (q < q' \<and> q' \<in> set xs \<and> feasible prices b m q' \<and>
     (\<exists>Q c. schedule_for prices m q' = Inr (Q, c) \<and> s' = Some (Q, c))))"
proof (induction xs arbitrary: q s)
  case Nil
  then show ?case by simp
next
  case (Cons x xs)
  show ?case
  proof (cases "schedule_for prices m x")
    case (Inl e)
    then show ?thesis using Cons.prems by (simp add: search_step_error)
  next
    case (Inr Qc)
    obtain Q c where Qc: "Qc = (Q, c)" by (cases Qc)
    note step = search_step_eq [OF Inr [unfolded Qc], of b q s]
    show ?thesis
    proof (cases "feasible prices b m x \<and> q < x")
      case True
      then have "search_loop prices b m (x, Some (Q, c)) xs = Inr (q', s')"
        using Cons.prems step by simp
      from Cons.IH [OF this] show ?thesis
        using True Inr Qc by auto
    next
      case False
      then have "search_loop prices b m (q, s) xs = Inr (q', s')"
        using Cons.prems step by (auto split: if_splits)
      from Cons.IH [OF this] show ?thesis
        using False by auto
    qed
  qed
qed


lemma search_loop_error:
  "search_loop prices b m st xs = Inl e \<Longrightarrow> prices = [] \<and> e = IndexError"
proof (induction xs arbitrary: st)
  case Nil
  then show ?case by simp
next
  case (Cons x xs)
  obtain q s where st: "st = (q, s)" by (cases st)
  show ?case
  proof (cases "schedule_for prices m x")
    case (Inl e')
    then show ?thesis
      using Cons.prems schedule_for_error [OF Inl] by (simp add: st search_step_error)
  next
    case (Inr Qc)
    obtain Q c where Qc: "Qc = (Q, c)" by (cases Qc)
    from search_step_eq [OF Inr [unfolded Qc], of b q s] Cons.prems Cons.IH show ?thesis
      by (simp add: st split: if_splits)
  qed
qed

lemma search_loop_mono:
  "b1 \<le> b2 \<Longrightarrow> q1 \<le> q2 \<Longrightarrow> search_loop prices b1 m (q1, s1) xs = Inr (q1', s1') \<Longrightarrow>
   \<exists>q2' s2'. search_loop prices b2 m (q2, s2) xs = Inr (q2', s2') \<and> q1' \<le> q2'"
proof (induction xs arbitrary: q1 s1 q2 s2)
  case Nil
  then show ?case by simp
next
  case (Cons x xs)
  show ?case
  proof (cases "schedule_for prices m x")
    case (Inl e)
    then show ?thesis using Cons.prems by (simp add: search_step_error)
  next
    case (Inr Qc)
    obtain Q c where Qc: "Qc = (Q, c)" by (cases Qc)
    note sched = Inr [unfolded Qc]
    have f: "feasible prices b1 m x \<Longrightarrow> feasible prices b2 m x"
      using sched Cons.prems(1) by (simp add: feasible_def)
    obtain q1n s1n where n1: "search_step prices b1 m (q1, s1) x = Inr (q1n, s1n)"
      and q1n: "q1n = (if feasible prices b1 m x \<and> q1 < x then x else q1)"
      using search_step_eq [OF sched, of b1 q1 s1] by (auto split: if_splits)
    obtain q2n s2n where n2: "search_step prices b2 m (q2, s2) x = Inr (q2n, s2n)"
      and q2n: "q2n = (if feasible prices b2 m x \<and> q2 < x then x else q2)"
      using search_step_eq [OF sched, of b2 q2 s2] by (auto split: if_splits)
    have le: "q1n \<le> q2n"
      using f Cons.prems(2) by (auto simp: q1n q2n)
    have "search_loop prices b1 m (q1n, s1n) xs = Inr (q1', s1')"
      using Cons.prems(3) n1 by simp
    from Cons.IH [OF Cons.prems(1) le this, of s2n] show ?thesis
      using n2 by simp
  qed
qed

lemma find_optimal_allocation_Some:
  "find_optimal_allocation prices b m M = Inr (Some Qc) \<longleftrightarrow>
   (\<exists>q. search_state prices b m M = Inr (q, Some Qc))"
  by (auto simp: find_optimal_allocation_def split: sum.splits)

lemma search_state_Some:
  assumes "search_state prices b m M = Inr (q, Some (Q, c))"
  shows "0 < q \<and> q \<le> M \<and> feasible prices b m q \<and> schedule_for prices m q = Inr (Q, c) \<and>
         (\<forall>x. 0 \<le> x \<and> x \<le> M \<and> feasible prices b m x \<longrightarrow> x \<le> q)"
  using search_loop_char [OF assms [unfolded search_state_def]] by auto

lemma search_state_None:
  assumes "search_state prices b m M = Inr (q, None)"
  shows "q = 0 \<and> (\<forall>x. 1 \<le> x \<and> x \<le> M \<longrightarrow> \<not> feasible prices b m x)"
  using search_loop_char [OF assms [unfolded search_state_def]] by auto

lemma search_state_Some_hd:
  assumes "search_state prices b m M = Inr (q, Some (Q, c))"
  shows "prices \<noteq> [] \<and> Q = q # top_ups m (tl prices) (hd prices * of_int q) q \<and>
         c = total_cost_of prices Q"
proof -
  have sf: "schedule_for prices m q = Inr (Q, c)"
    using search_state_Some [OF assms] by simp
  then have ne: "prices \<noteq> []" by (auto simp: schedule_for_def)
  from schedule_for_eq [OF ne, of m q] sf show ?thesis
    using ne by simp
qed

section \<open>The display loop\<close>











section \<open>Properties of the price ladder\<close>

text \<open>
  C6. \<^verbatim>\<open>build_price_levels\<close> degrades instead of failing: a start price not above
  the floor gives the one-element ladder of the rounded start price, and a start price
  above the floor with a step magnitude that is not positive gives the two-element
  ladder of the rounded start and floor prices; each time one warning is emitted and
  the function returns.
\<close>

theorem build_price_levels_degrades:
  "(start_price \<le> end_price \<longrightarrow>
      build_price_levels start_price end_price interval_type interval_value =
        Some ([''Starting price must be ABOVE the Lowest Expected Price.''],
              [py_round2 start_price])) \<and>
   (end_price < start_price \<and> interval_value \<le> 0 \<longrightarrow>
      build_price_levels start_price end_price interval_type interval_value =
        Some ([''Interval value must be positive.''],
              [py_round2 start_price, py_round2 end_price]))"
  by (simp add: build_price_levels_def)

theorem build_price_levels_degrades_witness:
  "(50::rat) \<le> 60 \<and>
   build_price_levels 50 60 ''$'' (5 / 2) =
     Some ([''Starting price must be ABOVE the Lowest Expected Price.''], [50]) \<and>
   (60::rat) < 75 \<and> (0::rat) \<le> 0 \<and>
   build_price_levels 75 60 ''%'' 0 =
     Some ([''Interval value must be positive.''], [75, 60])"
  using build_price_levels_degrades [of 50 60 "''$''" "5 / 2"]
    build_price_levels_degrades [of 75 60 "''%''" 0]
  by (simp add: py_round2_def round_half_even_def)

text \<open>
  C4, as stated, fails: the ladder is rounded after it is built, so two levels less
  than a cent apart come out equal, and a level above the floor can round down to it;
  with a negative floor and a relative step above 1 the levels even alternate in sign.
\<close>

theorem build_price_levels_strict_counterexample:
  "build_price_levels 10 (999 / 100) ''$'' (1 / 250) =
     Some ([], [10, 10, 999 / 100, 999 / 100]) \<and>
   \<not> strictly_decreasing [10, 10, 999 / 100, 999 / 100] \<and>
   [10, 10, 999 / 100, 999 / 100 :: rat] ! 2 \<le> 999 / 100 \<and>
   build_price_levels 1 (- 3) ''%'' (5 / 2) = Some ([], [1, - (3 / 2), 9 / 4, - 3]) \<and>
   \<not> strictly_decreasing [1, - (3 / 2), 9 / 4, - 3]"
  by code_simp

text \<open>
  C4, amended. For a start price above a floor that is not negative (or with an
  absolute step), a positive step magnitude and a call that returns: no warning is
  emitted; the ladder is the rounding of a strictly decreasing sequence whose elements
  before the last are all above the floor; the ladder itself is non-increasing, begins
  with the rounded start price, ends with the rounded floor price, and has no element
  below the rounded floor price.
\<close>

theorem build_price_levels_ladder:
  assumes "end_price < start_price" and "0 < interval_value"
    and "0 \<le> end_price \<or> interval_type = ''$''"
    and "build_price_levels start_price end_price interval_type interval_value =
           Some (warnings, ladder)"
  shows "warnings = [] \<and> non_increasing ladder \<and>
         hd ladder = py_round2 start_price \<and> last ladder = py_round2 end_price \<and>
         (\<forall>x\<in>set ladder. py_round2 end_price \<le> x) \<and>
         (\<exists>raw. ladder = map py_round2 raw \<and> strictly_decreasing raw \<and>
                (\<forall>x\<in>set (butlast raw). end_price < x))"
proof -
  obtain ps where loop: "ladder_loop interval_type interval_value end_price start_price [start_price] = Some ps"
    and w: "warnings = []" and l: "ladder = map py_round2 (ps @ [end_price])"
    using assms by (auto simp: build_price_levels_def split: option.splits)
  have dec: "\<forall>c. end_price < c \<longrightarrow> next_price interval_type interval_value c < c"
    using next_price_decreases [OF assms(2) assms(3)] by blast
  have inv: "ps \<noteq> [] \<and> hd ps = hd [start_price] \<and> strictly_decreasing ps \<and> (\<forall>x\<in>set ps. end_price < x)"
    by (rule ladder_loop_inv [OF loop dec]) (use assms(1) in simp_all)
  then have "end_price < last ps" by simp
  then have sd: "strictly_decreasing (ps @ [end_price])"
    using inv by (simp add: strictly_decreasing_snoc)
  have ni: "non_increasing ladder"
    unfolding l by (rule non_increasing_map_round [OF sd])
  have hd: "hd ladder = py_round2 start_price"
    using inv by (simp add: l hd_map hd_append)
  have lst: "last ladder = py_round2 end_price"
    by (simp add: l)
  have low: "\<forall>x\<in>set ladder. py_round2 end_price \<le> x"
    using inv by (auto simp: l intro: py_round2_mono less_imp_le)
  have "ladder = map py_round2 (ps @ [end_price]) \<and> strictly_decreasing (ps @ [end_price]) \<and>
        (\<forall>x\<in>set (butlast (ps @ [end_price])). end_price < x)"
    using l sd inv by simp
  then show ?thesis using w ni hd lst low by blast
qed

theorem build_price_levels_ladder_witness:
  "(60::rat) < 75 \<and> (0::rat) < 5 / 2 \<and> (0::rat) \<le> 60 \<and>
   build_price_levels 75 60 ''$'' (5 / 2) =
     Some ([], [75, 145 / 2, 70, 135 / 2, 65, 125 / 2, 60]) \<and>
   non_increasing [75, 145 / 2, 70, 135 / 2, 65, 125 / 2, 60] \<and>
   hd [75, 145 / 2, 70, 135 / 2, 65, 125 / 2, 60] = py_round2 75 \<and>
   last [75, 145 / 2, 70, 135 / 2, 65, 125 / 2, 60] = py_round2 60"
proof -
  have h1: "(60::rat) < 75" and h2: "(0::rat) < 5 / 2" and h3: "(0::rat) \<le> 60 \<or> ''$'' = ''$''"
    by simp_all
  have h4: "build_price_levels 75 60 ''$'' (5 / 2) =
     Some ([], [75, 145 / 2, 70, 135 / 2, 65, 125 / 2, 60])"
    by code_simp
  from build_price_levels_ladder [OF h1 h2 h3 h4] show ?thesis
    using h4 by simp
qed



section \<open>Properties of the allocation search\<close>









text \<open>
  C5. With a margin of 0 the search raises no ZeroDivisionError, whatever the ladder
  and the budget: one pass of the inner loop skips the division, buys 0 shares and
  leaves the running totals as they are, and every entry after the first of a
  returned schedule is 0.
\<close>

theorem zero_margin_no_division_error:
  "find_optimal_allocation prices budget 0 max_Q0_search \<noteq> Inl ZeroDivisionError \<and>
   level_step prices 0 (Q, S_price, S_shares) i = Inr (Q[i := 0], S_price, S_shares) \<and>
   (find_optimal_allocation prices budget 0 max_Q0_search = Inr (Some (Q', total_cost)) \<longrightarrow>
      tl Q' = replicate (length prices - 1) 0)"
proof -
  have "find_optimal_allocation prices budget 0 max_Q0_search \<noteq> Inl ZeroDivisionError"
  proof
    assume "find_optimal_allocation prices budget 0 max_Q0_search = Inl ZeroDivisionError"
    then have "search_loop prices budget 0 (0, None) [0 .. max_Q0_search] = Inl ZeroDivisionError"
      by (auto simp: find_optimal_allocation_def search_state_def split: sum.splits)
    from search_loop_error [OF this] show False by simp
  qed
  moreover have "level_step prices 0 (Q, S_price, S_shares) i = Inr (Q[i := 0], S_price, S_shares)"
    by (simp add: level_step_eq buy_qty_def)
  moreover have "tl Q' = replicate (length prices - 1) 0"
    if r: "find_optimal_allocation prices budget 0 max_Q0_search = Inr (Some (Q', total_cost))"
  proof -
    obtain q where "search_state prices budget 0 max_Q0_search = Inr (q, Some (Q', total_cost))"
      using r by (auto simp: find_optimal_allocation_Some)
    from search_state_Some_hd [OF this] show ?thesis
      by (simp add: top_ups_zero_margin)
  qed
  ultimately show ?thesis by blast
qed

theorem zero_margin_no_division_error_witness:
  "find_optimal_allocation [75, 60] 100 0 10 = Inr (Some ([1, 0], 75)) \<and>
   find_optimal_allocation [75, 60] 100 0 10 \<noteq> Inl ZeroDivisionError \<and>
   level_step [75, 60] 0 ([1, 0], 75, 1) 1 = Inr ([1, 0], 75, 1) \<and>
   tl [1, 0 :: int] = replicate (length [75, 60 :: rat] - 1) 0"
proof -
  have h: "find_optimal_allocation [75, 60] 100 0 10 = Inr (Some ([1, 0], 75))"
    by code_simp
  from zero_margin_no_division_error [of "[75, 60]" 100 10 "[1, 0]" 75 1 1 "[1, 0]" 75] h
  show ?thesis by simp
qed

text \<open>
  C7. With the ladder, the margin and the search bound fixed, a larger budget never
  gives a smaller \<^verbatim>\<open>best_Q0\<close>: if the scan under \<open>b1\<close> ends with \<open>q1\<close>, the scan
  under \<open>b2 \<ge> b1\<close> ends with some \<open>q2 \<ge> q1\<close>; and when the first scan returns a
  schedule, so does the second, each schedule beginning with its \<^verbatim>\<open>best_Q0\<close>.
\<close>

theorem best_Q0_mono_in_budget:
  assumes "b1 \<le> b2"
    and "search_state prices b1 avg_cost_margin max_Q0_search = Inr (q1, s1)"
  shows "\<exists>q2 s2. search_state prices b2 avg_cost_margin max_Q0_search = Inr (q2, s2) \<and>
           q1 \<le> q2 \<and>
           find_optimal_allocation prices b1 avg_cost_margin max_Q0_search = Inr s1 \<and>
           find_optimal_allocation prices b2 avg_cost_margin max_Q0_search = Inr s2 \<and>
           (\<forall>Q1 c1. s1 = Some (Q1, c1) \<longrightarrow>
              (\<exists>Q2 c2. s2 = Some (Q2, c2) \<and> Q1 ! 0 = q1 \<and> Q2 ! 0 = q2))"
proof -
  have le0: "(0::int) \<le> 0" by simp
  obtain q2 s2 where st2: "search_state prices b2 avg_cost_margin max_Q0_search = Inr (q2, s2)"
    and le: "q1 \<le> q2"
    using search_loop_mono [OF assms(1) le0 assms(2) [unfolded search_state_def], of None]
    unfolding search_state_def by blast
  have f1: "find_optimal_allocation prices b1 avg_cost_margin max_Q0_search = Inr s1"
    using assms(2) by (simp add: find_optimal_allocation_def)
  have f2: "find_optimal_allocation prices b2 avg_cost_margin max_Q0_search = Inr s2"
    using st2 by (simp add: find_optimal_allocation_def)
  have "\<exists>Q2 c2. s2 = Some (Q2, c2) \<and> Q1 ! 0 = q1 \<and> Q2 ! 0 = q2" if s1: "s1 = Some (Q1, c1)" for Q1 c1
  proof -
    note a = assms(2) [unfolded s1]
    have pos: "0 < q1" using search_state_Some [OF a] by simp
    have h1: "Q1 ! 0 = q1" using search_state_Some_hd [OF a] by (metis nth_Cons_0)
    show ?thesis
    proof (cases s2)
      case None
      then show ?thesis using search_state_None [OF st2 [unfolded None]] pos le by simp
    next
      case (Some Qc)
      obtain Q2 c2 where Qc: "Qc = (Q2, c2)" by (cases Qc)
      have "Q2 ! 0 = q2"
        using search_state_Some_hd [OF st2 [unfolded Some Qc]] by (metis nth_Cons_0)
      then show ?thesis using Some Qc h1 by simp
    qed
  qed
  then show ?thesis using st2 le f1 f2 by blast
qed

theorem best_Q0_mono_in_budget_witness:
  "(1000::rat) \<le> 2000 \<and>
   search_state [75, 60] 1000 (1 / 50) 10 = Inr (1, Some ([1, 12], 795)) \<and>
   (\<exists>q2 s2. search_state [75, 60] 2000 (1 / 50) 10 = Inr (q2, s2) \<and> 1 \<le> q2)"
proof -
  have h1: "(1000::rat) \<le> 2000" by simp
  have h2: "search_state [75, 60] 1000 (1 / 50) 10 = Inr (1, Some ([1, 12], 795))"
    by code_simp
  from best_Q0_mono_in_budget [OF h1 h2] obtain q2 s2 where
    "search_state [75, 60] 2000 (1 / 50) 10 = Inr (q2, s2)" and "1 \<le> q2"
    by (elim exE conjE)
  then have "\<exists>q2 s2. search_state [75, 60] 2000 (1 / 50) 10 = Inr (q2, s2) \<and> 1 \<le> q2"
    by (intro exI conjI)
  with h1 h2 show ?thesis by (intro conjI)
qed

text \<open>
  C10. A returned pair is consistent: the schedule has one entry for each ladder
  level, no entry is negative, its first entry is the \<^verbatim>\<open>best_Q0\<close> the scan ended
  with, and the total cost is the sum of price times quantity over the schedule.
\<close>

theorem find_optimal_allocation_consistent:
  assumes "find_optimal_allocation prices budget avg_cost_margin max_Q0_search =
             Inr (Some (Q, total_cost))"
  shows "length Q = length prices \<and> (\<forall>q\<in>set Q. 0 \<le> q) \<and>
         search_state prices budget avg_cost_margin max_Q0_search =
           Inr (Q ! 0, Some (Q, total_cost)) \<and>
         total_cost = total_cost_of prices Q"
proof -
  obtain q where st: "search_state prices budget avg_cost_margin max_Q0_search = Inr (q, Some (Q, total_cost))"
    using assms by (auto simp: find_optimal_allocation_Some)
  note h = search_state_Some_hd [OF st]
  have q: "Q ! 0 = q" using h by (metis nth_Cons_0)
  have len: "length Q = length prices"
  proof -
    have "length Q = Suc (length (tl prices))" using h by (metis length_Cons length_top_ups)
    then show ?thesis using h by simp
  qed
  have "0 < q" using search_state_Some [OF st] by simp
  then have "\<forall>x\<in>set Q. 0 \<le> x"
    using h top_ups_nonneg [of _ avg_cost_margin "tl prices" "hd prices * of_int q" q]
    by (metis less_imp_le set_ConsD)
  then show ?thesis using len st q h by simp
qed

theorem find_optimal_allocation_consistent_witness:
  "find_optimal_allocation [75, 60] 1000 (1 / 50) 10 = Inr (Some ([1, 12], 795)) \<and>
   length [1, 12 :: int] = length [75, 60 :: rat] \<and>
   search_state [75, 60] 1000 (1 / 50) 10 = Inr ([1, 12] ! 0, Some ([1, 12], 795)) \<and>
   (795::rat) = total_cost_of [75, 60] [1, 12]"
proof -
  have h: "find_optimal_allocation [75, 60] 1000 (1 / 50) 10 = Inr (Some ([1, 12], 795))"
    by code_simp
  from find_optimal_allocation_consistent [OF h] show ?thesis
    using h by simp
qed

section \<open>Properties of the display rows\<close>



end
